theory Spec2Isabelle
  imports Main "HOL-Library.AList"
begin

section \<open>flightcontrol: singleflight with cancellation and progress\<close>

text \<open>
  A model of \<^verbatim>\<open>util/flightcontrol/flightcontrol.go\<close>.  The sequential
  bodies (\<^verbatim>\<open>signal\<close>, \<^verbatim>\<open>Deadline\<close>, \<^verbatim>\<open>progressState.add\<close>, the batch
  loop of \<^verbatim>\<open>progressState.run\<close>, \<^verbatim>\<open>append\<close>) are functions on records that
  mirror the Go structs.  The goroutines are an interleaving semantics: a state holds
  the group, its calls, the callers' contexts and a program counter per goroutine; a
  label names one atomic step (a critical section under a mutex, a channel operation or
  an event of the environment), and \<open>step\<close> executes it or returns \<open>None\<close> when the
  step is blocked.
\<close>

subsection \<open>Values, errors, contexts\<close>

text \<open>
  \<^verbatim>\<open>error\<close> values: \<open>None\<close> is \<^verbatim>\<open>nil\<close>.  \<open>ErrRetry\<close> is the package variable
  \<^verbatim>\<open>errRetry\<close> (line 18), \<open>Canceled\<close> and \<open>DeadlineExceeded\<close> are the two
  completion errors of the context package, \<open>UserError\<close> is any other error.
\<close>

datatype error = ErrRetry | Canceled | DeadlineExceeded | UserError nat

type_synonym val = "nat option"  \<comment> \<open>\<^verbatim>\<open>interface{}\<close>; \<open>None\<close> is \<^verbatim>\<open>nil\<close>\<close>
type_synonym time = nat          \<comment> \<open>\<^verbatim>\<open>time.Time\<close>\<close>
type_synonym key = string
type_synonym ctxid = nat
type_synonym cid = nat
type_synonym tid = nat

text \<open>
  \<^verbatim>\<open>progress.Progress\<close>: the fields the package reads are \<^verbatim>\<open>ID\<close> and
  \<^verbatim>\<open>Timestamp\<close>.
\<close>

record progress =
  ID :: string
  Timestamp :: time
  payload :: nat

text \<open>
  A \<^verbatim>\<open>progress.Writer\<close> value.  \<open>raw\<close> says whether its dynamic type
  implements \<^verbatim>\<open>rawProgressWriter\<close> (lines 219-222), which the type assertion of
  line 263 tests.  What the multiplexer calls on a writer is recorded in a log.
\<close>

datatype pwriter = PWriter (wname: nat) (raw: bool)

datatype wevent = WriteRawProgress progress | Close

type_synonym wlogs = "pwriter \<Rightarrow> wevent list"

text \<open>
  A caller's \<^verbatim>\<open>context.Context\<close>.  \<open>cerr\<close> is \<^verbatim>\<open>ctx.Err()\<close>: by the
  contract of the interface it is non-nil exactly when \<^verbatim>\<open>ctx.Done()\<close> is closed.
  \<open>cdeadline\<close> is \<^verbatim>\<open>ctx.Deadline()\<close> (\<open>None\<close> when \<^verbatim>\<open>ok\<close> is false), and
  \<open>cwriter\<close> is the writer \<^verbatim>\<open>progress.FromContext\<close> finds (\<open>None\<close> when
  \<^verbatim>\<open>ok\<close> is false).  \<^verbatim>\<open>progress.FromContext\<close> is not part of this package; the
  context it returns is taken to complete with the context it was given.
\<close>

record caller_ctx =
  cerr :: "error option"
  cdeadline :: "time option"
  cwriter :: "pwriter option"

subsection \<open>The structs\<close>

text \<open>\<^verbatim>\<open>progressState\<close> (lines 224-229).  The map \<^verbatim>\<open>items\<close> is an association list
  with distinct keys; its order stands for one iteration order of the Go map.\<close>

record progressState =
  items :: "(string \<times> progress) list"
  writers :: "pwriter list"
  ps_done :: bool

text \<open>\<^verbatim>\<open>sharedContext\<close> (lines 190-194): \<open>sc_done\<close> is "the channel \<^verbatim>\<open>done\<close> is
  closed", \<open>sc_err\<close> is the field \<^verbatim>\<open>err\<close>.  The embedded \<^verbatim>\<open>*call\<close> is the call
  that owns it.\<close>

record sharedContext =
  sc_done :: bool
  sc_err :: "error option"

text \<open>\<^verbatim>\<open>call\<close> (lines 54-67): \<open>ready\<close> is "the channel \<^verbatim>\<open>ready\<close> is closed",
  \<open>once\<close> is "the \<^verbatim>\<open>sync.Once\<close> has been taken".\<close>

record call =
  result :: val
  err :: "error option"
  ready :: bool
  ctx :: sharedContext
  ctxs :: "ctxid list"
  once :: bool
  progressState :: progressState

definition newProgressState :: progressState where
  "newProgressState = \<lparr>items = [], writers = [], ps_done = False\<rparr>"

definition newContext :: sharedContext where
  "newContext = \<lparr>sc_done = False, sc_err = None\<rparr>"

definition newCall :: call where
  "newCall = \<lparr>result = None, err = None, ready = False, ctx = newContext, ctxs = [],
     once = False, progressState = newProgressState\<rparr>"

subsection \<open>The cancellation merger\<close>

text \<open>The loop of \<^verbatim>\<open>sharedContext.signal\<close> (lines 206-213): \<open>None\<close> is the early
  \<^verbatim>\<open>return\<close> of line 211, \<open>Some e\<close> is the value of \<^verbatim>\<open>err\<close> after the loop.\<close>

fun signal_loop :: "(ctxid \<Rightarrow> caller_ctx) \<Rightarrow> ctxid list \<Rightarrow> error option \<Rightarrow> error option option" where
  "signal_loop cx [] e = Some e"
| "signal_loop cx (i # is) e =
     (case cerr (cx i) of
        None \<Rightarrow> None
      | Some e' \<Rightarrow> signal_loop cx is (Some e'))"

text \<open>\<^verbatim>\<open>sharedContext.signal\<close> (lines 201-217), called with the call's lock held.\<close>

definition signal :: "(ctxid \<Rightarrow> caller_ctx) \<Rightarrow> call \<Rightarrow> call" where
  "signal cx c =
     (if sc_done (ctx c) then c
      else case signal_loop cx (ctxs c) None of
             None \<Rightarrow> c
           | Some e \<Rightarrow> c\<lparr>ctx := \<lparr>sc_done = True, sc_err = e\<rparr>\<rparr>)"

text \<open>\<^verbatim>\<open>call.Deadline\<close> (lines 143-157): \<open>None\<close> is \<^verbatim>\<open>(time.Time{}, false)\<close>.\<close>

fun Deadline_loop :: "(ctxid \<Rightarrow> caller_ctx) \<Rightarrow> ctxid list \<Rightarrow> time option" where
  "Deadline_loop cx [] = None"
| "Deadline_loop cx (i # is) =
     (if cerr (cx i) \<noteq> None then Deadline_loop cx is
      else case cdeadline (cx i) of
             Some dl \<Rightarrow> Some dl
           | None \<Rightarrow> Deadline_loop cx is)"

definition Deadline :: "(ctxid \<Rightarrow> caller_ctx) \<Rightarrow> call \<Rightarrow> time option" where
  "Deadline cx c = Deadline_loop cx (ctxs c)"

text \<open>\<^verbatim>\<open>call.Done\<close> (lines 159-164) returns the channel \<^verbatim>\<open>c.ctx.done\<close> after
  \<^verbatim>\<open>signal\<close>; \<^verbatim>\<open>call.Err\<close> (lines 166-173) reads the merged error through it.\<close>

definition Done :: "(ctxid \<Rightarrow> caller_ctx) \<Rightarrow> call \<Rightarrow> call" where
  "Done cx c = signal cx c"

definition Err :: "(ctxid \<Rightarrow> caller_ctx) \<Rightarrow> call \<Rightarrow> error option \<times> call" where
  "Err cx c = (let c' = Done cx c in (if sc_done (ctx c') then sc_err (ctx c') else None, c'))"

subsection \<open>The progress multiplexer\<close>

definition write_to :: "pwriter \<Rightarrow> wevent \<Rightarrow> wlogs \<Rightarrow> wlogs" where
  "write_to w ev L = L(w := L w @ [ev])"

text \<open>The body of the batch loop of \<^verbatim>\<open>progressState.run\<close> (lines 252-257).\<close>

fun run_batch :: "progress list \<Rightarrow> progressState \<times> wlogs \<Rightarrow> progressState \<times> wlogs" where
  "run_batch [] (ps, L) = (ps, L)"
| "run_batch (p # rest) (ps, L) =
     run_batch rest
       (ps\<lparr>items := AList.update (ID p) p (items ps)\<rparr>,
        fold (\<lambda>w. write_to w (WriteRawProgress p)) (writers ps) L)"

text \<open>End of stream, lines 242-244 and then lines 245-247.\<close>

definition run_eof :: "progressState \<Rightarrow> progressState" where
  "run_eof ps = ps\<lparr>ps_done := True\<rparr>"

definition run_close :: "progressState \<Rightarrow> wlogs \<Rightarrow> wlogs" where
  "run_close ps L = fold (\<lambda>w. write_to w Close) (writers ps) L"

text \<open>
  \<^verbatim>\<open>progressState.add\<close> (lines 262-284).  \<^verbatim>\<open>sort.Slice\<close> is not stable and the
  iteration order of a Go map is not fixed, so the order of items with equal timestamps
  is not determined by the source; the model sorts the items in the order of the
  association list with the insertion sort \<open>sort_key\<close>, which is one of the orders the
  source can produce.
\<close>

definition add :: "pwriter \<Rightarrow> progressState \<times> wlogs \<Rightarrow> progressState \<times> wlogs" where
  "add pw = (\<lambda>(ps, L).
     if \<not> raw pw then (ps, L)
     else
       let plist = sort_key Timestamp (map snd (items ps));
           L' = fold (\<lambda>p. write_to pw (WriteRawProgress p)) plist L
       in if ps_done ps then (ps, write_to pw Close L')
          else (ps\<lparr>writers := writers ps @ [pw]\<rparr>, L'))"

subsection \<open>Goroutines\<close>

text \<open>
  The goroutines that belong to one call, and counters that observe it.
  \<^item> \<open>run_pc\<close>: where the goroutine that won \<^verbatim>\<open>c.once.Do(c.run)\<close> stands in
    \<^verbatim>\<open>call.run\<close> (lines 86-94): not started, inside \<^verbatim>\<open>c.fn\<close> (line 88), after the
    result is stored (lines 89-92), after \<^verbatim>\<open>close(c.ready)\<close> (line 93), after the
    deferred \<^verbatim>\<open>closeProgressWriter\<close> (line 87).
  \<^item> \<open>pending\<close>: goroutines started by \<^verbatim>\<open>go c.once.Do(c.run)\<close> (line 108) that have
    not yet entered \<^verbatim>\<open>once.Do\<close>; \<open>triggers\<close> counts those that have.
  \<^item> \<open>runs\<close>: how many times \<^verbatim>\<open>c.fn\<close> was invoked (the counter a test would put in
    the work function); \<open>fn_ret\<close>: what \<^verbatim>\<open>c.fn\<close> returned.
  \<^item> \<open>watchers\<close>: the goroutines started by \<^verbatim>\<open>append\<close> (lines 132-140), one per
    registered context, that have not finished.
  \<^item> \<open>cleanup\<close>: the goroutine of \<^verbatim>\<open>Do\<close> (lines 43-49) has not yet deleted the key;
    \<open>ckey\<close> is the key it captured.
  \<^item> \<open>reader\<close>: where \<^verbatim>\<open>progressState.run\<close> (lines 237-260) stands; \<open>pipe_closed\<close>:
    \<^verbatim>\<open>closeProgressWriter\<close> was called.
\<close>

datatype run_pc = NotStarted | InFn | Stored | Signalled | Exited

datatype reader_pc = Reading | Closing | Stopped

record tasks =
  ckey :: key
  cleanup :: bool
  pending :: nat
  triggers :: nat
  runs :: nat
  run_pc :: run_pc
  fn_ret :: "(val \<times> error option) option"
  watchers :: "ctxid list"
  reader :: reader_pc
  pipe_closed :: bool

definition newTasks :: "key \<Rightarrow> tasks" where
  "newTasks k = \<lparr>ckey = k, cleanup = True, pending = 0, triggers = 0, runs = 0,
     run_pc = NotStarted, fn_ret = None, watchers = [], reader = Reading,
     pipe_closed = False\<rparr>"

text \<open>A call that is not allocated yet has no goroutines.\<close>

definition noTasks :: tasks where
  "noTasks = \<lparr>ckey = [], cleanup = False, pending = 0, triggers = 0, runs = 0,
     run_pc = NotStarted, fn_ret = None, watchers = [], reader = Stopped,
     pipe_closed = False\<rparr>"

text \<open>
  One invocation of \<^verbatim>\<open>Group.Do\<close>.  The program counter names the next statement
  the caller executes:
  \<^item> \<open>DoEntry\<close>: line 26, before \<^verbatim>\<open>g.mu.Lock()\<close>;
  \<^item> \<open>WaitEntry c\<close>: lines 33 or 51, holding call \<open>c\<close>, before \<^verbatim>\<open>c.mu.Lock()\<close> of line 97;
  \<^item> \<open>Appending c\<close>: line 105, the \<^verbatim>\<open>select\<close> of lines 99-104 took \<^verbatim>\<open>default\<close>;
  \<^item> \<open>Selecting c\<close>: the \<^verbatim>\<open>select\<close> of line 110;
  \<^item> \<open>CallingDone c\<close>: line 113, about to evaluate \<^verbatim>\<open>c.ctx.Done()\<close>;
  \<^item> \<open>InnerSelecting c\<close>: the \<^verbatim>\<open>select\<close> of line 112 on the channel obtained;
  \<^item> \<open>ReceivingReady c\<close>: line 116, blocked in \<^verbatim>\<open><-c.ready\<close>;
  \<^item> \<open>Returned site v e\<close>: \<^verbatim>\<open>Do\<close> has returned \<open>(v, e)\<close>, which \<^verbatim>\<open>wait\<close> returned
    at line \<open>site\<close>.
  \<open>second\<close> says that \<^verbatim>\<open>Do\<close> took the branch of line 31 ("register 2nd waiter");
  \<open>joined\<close> is the call this invocation appended its context to.
\<close>

datatype retsite = Line102 | Line117 | Line119 | Line122

datatype pc =
    DoEntry
  | WaitEntry cid
  | Appending cid
  | Selecting cid
  | CallingDone cid
  | InnerSelecting cid
  | ReceivingReady cid
  | Returned retsite val "error option"

record thread =
  tkey :: key
  tctx :: ctxid
  pc :: pc
  second :: bool
  joined :: "cid option"

text \<open>The whole state: \<open>gm\<close> is the map \<^verbatim>\<open>g.m\<close> of the \<^verbatim>\<open>Group\<close> (lines 20-23),
  \<open>calls\<close> the heap of \<^verbatim>\<open>*call\<close> objects (\<open>ncalls\<close> of them allocated), \<open>ctxtab\<close> the
  callers' contexts, \<open>wlog\<close> what each progress writer has received.\<close>

record state =
  gm :: "key \<Rightarrow> cid option"
  calls :: "cid \<Rightarrow> call"
  ncalls :: nat
  tasks :: "cid \<Rightarrow> tasks"
  ctxtab :: "ctxid \<Rightarrow> caller_ctx"
  wlog :: wlogs
  threads :: "tid \<Rightarrow> thread"

text \<open>The initial state: an empty group; invocation \<open>t\<close> of \<^verbatim>\<open>Do\<close> has the key and
  the context \<open>args t\<close>, and the contexts are \<open>cx\<close>.\<close>

definition init :: "(ctxid \<Rightarrow> caller_ctx) \<Rightarrow> (tid \<Rightarrow> key \<times> ctxid) \<Rightarrow> state" where
  "init cx args =
     \<lparr>gm = (\<lambda>k. None), calls = (\<lambda>c. newCall), ncalls = 0, tasks = (\<lambda>c. noTasks),
      ctxtab = cx, wlog = (\<lambda>w. []),
      threads = (\<lambda>t. \<lparr>tkey = fst (args t), tctx = snd (args t), pc = DoEntry,
                       second = False, joined = None\<rparr>)\<rparr>"

definition set_pc :: "tid \<Rightarrow> pc \<Rightarrow> state \<Rightarrow> state" where
  "set_pc t p s = s\<lparr>threads := (threads s)(t := (threads s t)\<lparr>pc := p\<rparr>)\<rparr>"

definition upd_call :: "cid \<Rightarrow> (call \<Rightarrow> call) \<Rightarrow> state \<Rightarrow> state" where
  "upd_call c f s = s\<lparr>calls := (calls s)(c := f (calls s c))\<rparr>"

definition upd_tasks :: "cid \<Rightarrow> (tasks \<Rightarrow> tasks) \<Rightarrow> state \<Rightarrow> state" where
  "upd_tasks c f s = s\<lparr>tasks := (tasks s)(c := f (tasks s c))\<rparr>"

subsection \<open>The steps of a caller\<close>

text \<open>
  What \<^verbatim>\<open>Do\<close> does with the pair \<^verbatim>\<open>wait\<close> returned.  On the branch of line 31 the
  test of line 34 sends \<^verbatim>\<open>errRetry\<close> back to the top of \<^verbatim>\<open>Do\<close> (line 36;
  \<^verbatim>\<open>runtime.Gosched\<close> only yields); line 51 returns the pair as it is.
\<close>

definition Do_return :: "tid \<Rightarrow> retsite \<Rightarrow> val \<Rightarrow> error option \<Rightarrow> state \<Rightarrow> state" where
  "Do_return t site v e s =
     (if second (threads s t) \<and> e = Some ErrRetry then set_pc t DoEntry s
      else set_pc t (Returned site v e) s)"

text \<open>\<^verbatim>\<open>Do\<close>, lines 26-50, one critical section of \<^verbatim>\<open>g.mu\<close>: the lookup, and on a miss
  \<^verbatim>\<open>newCall\<close> (lines 69-84, which starts the progress reader) and the start of the
  cleanup goroutine.\<close>

definition Do_lookup :: "tid \<Rightarrow> state \<Rightarrow> state" where
  "Do_lookup t s =
     (let th = threads s t in
      case gm s (tkey th) of
        Some c \<Rightarrow>
          s\<lparr>threads := (threads s)(t := th\<lparr>pc := WaitEntry c, second := True, joined := None\<rparr>)\<rparr>
      | None \<Rightarrow>
          (let c = ncalls s in
           s\<lparr>gm := (gm s)(tkey th := Some c),
             calls := (calls s)(c := newCall),
             ncalls := Suc c,
             tasks := (tasks s)(c := newTasks (tkey th)),
             threads := (threads s)(t := th\<lparr>pc := WaitEntry c, second := False, joined := None\<rparr>)\<rparr>))"

text \<open>\<^verbatim>\<open>call.append\<close> (lines 126-141): subscribe the writer when the context has one,
  register the context, start its watcher.\<close>

definition append :: "cid \<Rightarrow> ctxid \<Rightarrow> state \<Rightarrow> state" where
  "append c x s =
     (let cl = calls s c;
          r = (case cwriter (ctxtab s x) of
                 Some pw \<Rightarrow> add pw (progressState cl, wlog s)
               | None \<Rightarrow> (progressState cl, wlog s))
      in s\<lparr>calls := (calls s)(c := cl\<lparr>progressState := fst r, ctxs := ctxs cl @ [x]\<rparr>),
           wlog := snd r,
           tasks := (tasks s)(c := (tasks s c)\<lparr>watchers := watchers (tasks s c) @ [x]\<rparr>)\<rparr>)"

text \<open>\<^verbatim>\<open>call.wait\<close>, the \<^verbatim>\<open>select\<close> of lines 99-104.\<close>

definition wait_check :: "tid \<Rightarrow> cid \<Rightarrow> state \<Rightarrow> state" where
  "wait_check t c s =
     (if ready (calls s c) then Do_return t Line102 None (Some ErrRetry) s
      else set_pc t (Appending c) s)"

text \<open>\<^verbatim>\<open>call.wait\<close>, lines 105-108: \<^verbatim>\<open>append\<close>, and the goroutine of
  \<^verbatim>\<open>go c.once.Do(c.run)\<close> is started.\<close>

definition wait_append :: "tid \<Rightarrow> cid \<Rightarrow> state \<Rightarrow> state" where
  "wait_append t c s =
     (let s1 = append c (tctx (threads s t)) s;
          s2 = upd_tasks c (\<lambda>k. k\<lparr>pending := Suc (pending k)\<rparr>) s1
      in s2\<lparr>threads := (threads s2)(t := (threads s2 t)\<lparr>pc := Selecting c, joined := Some c\<rparr>)\<rparr>)"

text \<open>Line 113: \<^verbatim>\<open>c.ctx.Done()\<close> is \<^verbatim>\<open>call.Done\<close>, promoted through the embedded
  \<^verbatim>\<open>*call\<close>.\<close>

definition wait_call_done :: "tid \<Rightarrow> cid \<Rightarrow> state \<Rightarrow> state" where
  "wait_call_done t c s = set_pc t (InnerSelecting c) (upd_call c (Done (ctxtab s)) s)"

text \<open>The \<^verbatim>\<open>select\<close> of lines 112-120 on the channel \<^verbatim>\<open>c.ctx.done\<close>.\<close>

definition wait_inner_select :: "tid \<Rightarrow> cid \<Rightarrow> state \<Rightarrow> state" where
  "wait_inner_select t c s =
     (if sc_done (ctx (calls s c)) then set_pc t (ReceivingReady c) s
      else Do_return t Line119 None (cerr (ctxtab s (tctx (threads s t)))) s)"

subsection \<open>Labels and the step function\<close>

text \<open>
  \<^item> \<open>DoLookup t\<close>: lines 26-50.
  \<^item> \<open>WaitCheck t\<close>, \<open>WaitAppend t\<close>: lines 97-104 and 105-108.  Both run under
    \<^verbatim>\<open>c.mu\<close>, but \<^verbatim>\<open>close(c.ready)\<close> (line 93) does not take that lock, so \<^verbatim>\<open>ready\<close>
    can be closed between the two; the steps that do take \<^verbatim>\<open>c.mu\<close> do not change what
    the test of \<^verbatim>\<open>ready\<close> reads.
  \<^item> \<open>SelectCtx t\<close>, \<open>SelectReady t\<close>: the two cases of the \<^verbatim>\<open>select\<close> of line 110; each
    can be taken when its channel is closed, and Go picks one of those that can.
  \<^item> \<open>CallDone t\<close>, \<open>InnerSelect t\<close>, \<open>RecvReady t\<close>: lines 113, 112-120, 116-117.
  \<^item> \<open>OnceDo c\<close>: one goroutine of line 108 enters \<^verbatim>\<open>once.Do\<close>; the first one starts
    \<^verbatim>\<open>c.run\<close>, the others find the \<^verbatim>\<open>Once\<close> taken.
  \<^item> \<open>FnReturn c v e\<close>: \<^verbatim>\<open>c.fn\<close> returns \<open>(v, e)\<close> and lines 89-92 store it.  The work
    function is the caller's code and cannot name \<^verbatim>\<open>errRetry\<close>, so \<open>e\<close> is not it.
  \<^item> \<open>CloseReady c\<close>, \<open>CloseProgressWriter c\<close>: line 93 and the deferred call of line 87.
  \<^item> \<open>Cleanup c\<close>: lines 45-48.
  \<^item> \<open>WatchSignal c x\<close>, \<open>WatchExit c x\<close>: the two cases of the watcher's \<^verbatim>\<open>select\<close>
    (lines 133-139).
  \<^item> \<open>FnCallsDone c\<close>: the work function, or code it handed its context to, evaluates
    \<^verbatim>\<open>Done()\<close> or \<^verbatim>\<open>Err()\<close> of the merged context (lines 159-173).  The merged
    context is passed to nobody but the work function (line 88); \<^verbatim>\<open>progress.NewContext\<close>
    (line 76), which is not part of this package, is taken not to evaluate it.
  \<^item> \<open>Complete x e\<close>: the caller's context \<open>x\<close> completes with error \<open>e\<close>.
  \<^item> \<open>ReadBatch c b\<close>, \<open>ReadEOF c\<close>, \<open>CloseWriters c\<close>, \<open>ReadError c\<close>: the progress
    reader of lines 237-260: a batch (lines 251-258), end of stream (lines 242-244, once
    the pipe was closed), the \<^verbatim>\<open>Close\<close> loop (lines 245-247), another error (line 249).
\<close>

datatype label =
    DoLookup tid
  | WaitCheck tid
  | WaitAppend tid
  | SelectCtx tid
  | SelectReady tid
  | CallDone tid
  | InnerSelect tid
  | RecvReady tid
  | OnceDo cid
  | FnReturn cid val "error option"
  | CloseReady cid
  | CloseProgressWriter cid
  | Cleanup cid
  | WatchSignal cid ctxid
  | WatchExit cid ctxid
  | FnCallsDone cid
  | Complete ctxid error
  | ReadBatch cid "progress list"
  | ReadEOF cid
  | CloseWriters cid
  | ReadError cid

fun step :: "label \<Rightarrow> state \<Rightarrow> state option" where
  "step (DoLookup t) s =
     (if pc (threads s t) = DoEntry then Some (Do_lookup t s) else None)"
| "step (WaitCheck t) s =
     (case pc (threads s t) of WaitEntry c \<Rightarrow> Some (wait_check t c s) | _ \<Rightarrow> None)"
| "step (WaitAppend t) s =
     (case pc (threads s t) of Appending c \<Rightarrow> Some (wait_append t c s) | _ \<Rightarrow> None)"
| "step (SelectCtx t) s =
     (case pc (threads s t) of
        Selecting c \<Rightarrow>
          if cerr (ctxtab s (tctx (threads s t))) \<noteq> None then Some (set_pc t (CallingDone c) s)
          else None
      | _ \<Rightarrow> None)"
| "step (SelectReady t) s =
     (case pc (threads s t) of
        Selecting c \<Rightarrow>
          if ready (calls s c)
          then Some (Do_return t Line122 (result (calls s c)) (err (calls s c)) s)
          else None
      | _ \<Rightarrow> None)"
| "step (CallDone t) s =
     (case pc (threads s t) of CallingDone c \<Rightarrow> Some (wait_call_done t c s) | _ \<Rightarrow> None)"
| "step (InnerSelect t) s =
     (case pc (threads s t) of InnerSelecting c \<Rightarrow> Some (wait_inner_select t c s) | _ \<Rightarrow> None)"
| "step (RecvReady t) s =
     (case pc (threads s t) of
        ReceivingReady c \<Rightarrow>
          if ready (calls s c)
          then Some (Do_return t Line117 (result (calls s c)) (err (calls s c)) s)
          else None
      | _ \<Rightarrow> None)"
| "step (OnceDo c) s =
     (if 0 < pending (tasks s c) then
        Some (if once (calls s c)
              then upd_tasks c (\<lambda>k. k\<lparr>pending := pending k - 1, triggers := Suc (triggers k)\<rparr>) s
              else upd_tasks c (\<lambda>k. k\<lparr>pending := pending k - 1, triggers := Suc (triggers k),
                                       runs := Suc (runs k), run_pc := InFn\<rparr>)
                     (upd_call c (\<lambda>cl. cl\<lparr>once := True\<rparr>) s))
      else None)"
| "step (FnReturn c v e) s =
     (if run_pc (tasks s c) = InFn \<and> e \<noteq> Some ErrRetry then
        Some (upd_tasks c (\<lambda>k. k\<lparr>run_pc := Stored, fn_ret := Some (v, e)\<rparr>)
               (upd_call c (\<lambda>cl. cl\<lparr>result := v, err := e\<rparr>) s))
      else None)"
| "step (CloseReady c) s =
     (if run_pc (tasks s c) = Stored then
        Some (upd_tasks c (\<lambda>k. k\<lparr>run_pc := Signalled\<rparr>) (upd_call c (\<lambda>cl. cl\<lparr>ready := True\<rparr>) s))
      else None)"
| "step (CloseProgressWriter c) s =
     (if run_pc (tasks s c) = Signalled then
        Some (upd_tasks c (\<lambda>k. k\<lparr>run_pc := Exited, pipe_closed := True\<rparr>) s)
      else None)"
| "step (Cleanup c) s =
     (if cleanup (tasks s c) \<and> ready (calls s c) then
        Some ((upd_tasks c (\<lambda>k. k\<lparr>cleanup := False\<rparr>) s)\<lparr>gm := (gm s)(ckey (tasks s c) := None)\<rparr>)
      else None)"
| "step (WatchSignal c x) s =
     (if x \<in> set (watchers (tasks s c)) \<and> cerr (ctxtab s x) \<noteq> None then
        Some (upd_tasks c (\<lambda>k. k\<lparr>watchers := remove1 x (watchers k)\<rparr>)
               (upd_call c (signal (ctxtab s)) s))
      else None)"
| "step (WatchExit c x) s =
     (if x \<in> set (watchers (tasks s c)) \<and> sc_done (ctx (calls s c)) then
        Some (upd_tasks c (\<lambda>k. k\<lparr>watchers := remove1 x (watchers k)\<rparr>) s)
      else None)"
| "step (FnCallsDone c) s =
     (if run_pc (tasks s c) \<noteq> NotStarted then Some (upd_call c (Done (ctxtab s)) s) else None)"
| "step (Complete x e) s =
     (if cerr (ctxtab s x) = None then
        Some (s\<lparr>ctxtab := (ctxtab s)(x := (ctxtab s x)\<lparr>cerr := Some e\<rparr>)\<rparr>)
      else None)"
| "step (ReadBatch c b) s =
     (if reader (tasks s c) = Reading then
        (let r = run_batch b (progressState (calls s c), wlog s)
         in Some ((upd_call c (\<lambda>cl. cl\<lparr>progressState := fst r\<rparr>) s)\<lparr>wlog := snd r\<rparr>))
      else None)"
| "step (ReadEOF c) s =
     (if reader (tasks s c) = Reading \<and> pipe_closed (tasks s c) then
        Some (upd_tasks c (\<lambda>k. k\<lparr>reader := Closing\<rparr>)
               (upd_call c (\<lambda>cl. cl\<lparr>progressState := run_eof (progressState cl)\<rparr>) s))
      else None)"
| "step (CloseWriters c) s =
     (if reader (tasks s c) = Closing then
        Some ((upd_tasks c (\<lambda>k. k\<lparr>reader := Stopped\<rparr>) s)
               \<lparr>wlog := run_close (progressState (calls s c)) (wlog s)\<rparr>)
      else None)"
| "step (ReadError c) s =
     (if reader (tasks s c) = Reading then
        Some (upd_tasks c (\<lambda>k. k\<lparr>reader := Stopped\<rparr>) s)
      else None)"

text \<open>A schedule is a list of labels; \<open>exec\<close> runs it and is \<open>None\<close> when one of its
  steps cannot be taken.\<close>

fun exec :: "label list \<Rightarrow> state \<Rightarrow> state option" where
  "exec [] s = Some s"
| "exec (l # ls) s = (case step l s of None \<Rightarrow> None | Some s' \<Rightarrow> exec ls s')"

definition reachable :: "state \<Rightarrow> bool" where
  "reachable s = (\<exists>cx args ls. exec ls (init cx args) = Some s)"

subsection \<open>Invariants of the reachable states\<close>

text \<open>The caller that executes a label, for the steps of \<^verbatim>\<open>Do\<close> and \<^verbatim>\<open>wait\<close>.\<close>

fun actor :: "label \<Rightarrow> tid option" where
  "actor (DoLookup t) = Some t"
| "actor (WaitCheck t) = Some t"
| "actor (WaitAppend t) = Some t"
| "actor (SelectCtx t) = Some t"
| "actor (SelectReady t) = Some t"
| "actor (CallDone t) = Some t"
| "actor (InnerSelect t) = Some t"
| "actor (RecvReady t) = Some t"
| "actor l = None"

text \<open>
  \<open>once_inv\<close>: the counters of the single-execution guard.
  \<open>result_inv\<close>: \<^verbatim>\<open>ready\<close> is closed only after the result is stored, and the stored
  pair is what the work function returned.
  \<open>gm_inv\<close>: the map holds allocated calls only.
  \<open>thread_inv\<close>: what is known of a caller at each program point.
  \<open>sig_inv\<close>: the watchers of a call whose merged context has not fired.
  \<open>writer_inv\<close>: only raw writers are subscribed or written to.
  \<open>retry_inv\<close>: a caller that took the branch of line 31 never returns \<^verbatim>\<open>errRetry\<close>.
\<close>


definition once_inv :: "state \<Rightarrow> cid \<Rightarrow> bool" where
  "once_inv s c = (runs (tasks s c) = (if once (calls s c) then 1 else 0)
     \<and> once (calls s c) = (0 < triggers (tasks s c))
     \<and> (run_pc (tasks s c) = NotStarted) = (\<not> once (calls s c))
     \<and> triggers (tasks s c) + pending (tasks s c) = length (ctxs (calls s c)))"

definition result_inv :: "state \<Rightarrow> cid \<Rightarrow> bool" where
  "result_inv s c =
     (ready (calls s c) = (run_pc (tasks s c) = Signalled \<or> run_pc (tasks s c) = Exited)
      \<and> ((run_pc (tasks s c) = NotStarted \<or> run_pc (tasks s c) = InFn)
           = (fn_ret (tasks s c) = None))
      \<and> (fn_ret (tasks s c) \<noteq> None \<longrightarrow>
            fn_ret (tasks s c) = Some (result (calls s c), err (calls s c)))
      \<and> err (calls s c) \<noteq> Some ErrRetry)"

definition gm_inv :: "state \<Rightarrow> bool" where
  "gm_inv s = (\<forall>k c. gm s k = Some c \<longrightarrow> c < ncalls s)"

definition thread_inv :: "state \<Rightarrow> tid \<Rightarrow> bool" where
  "thread_inv s t =
     (let th = threads s t; x = tctx th in
      (\<forall>c. joined th = Some c \<longrightarrow> c < ncalls s \<and> x \<in> set (ctxs (calls s c))) \<and>
      (case pc th of
         DoEntry \<Rightarrow> True
       | WaitEntry c \<Rightarrow> c < ncalls s \<and> joined th = None
       | Appending c \<Rightarrow> c < ncalls s \<and> joined th = None
       | Selecting c \<Rightarrow> joined th = Some c
       | CallingDone c \<Rightarrow> joined th = Some c \<and> cerr (ctxtab s x) \<noteq> None
       | InnerSelecting c \<Rightarrow> joined th = Some c \<and> cerr (ctxtab s x) \<noteq> None
       | ReceivingReady c \<Rightarrow>
           joined th = Some c \<and> cerr (ctxtab s x) \<noteq> None \<and> sc_done (ctx (calls s c))
       | Returned site v e \<Rightarrow>
           (case site of
              Line102 \<Rightarrow> joined th = None \<and> \<not> second th \<and> v = None \<and> e = Some ErrRetry
            | Line117 \<Rightarrow>
                cerr (ctxtab s x) \<noteq> None \<and> joined th \<noteq> None \<and>
                (\<forall>c. joined th = Some c \<longrightarrow> ready (calls s c) \<and> sc_done (ctx (calls s c))
                   \<and> v = result (calls s c) \<and> e = err (calls s c))
            | Line119 \<Rightarrow>
                joined th \<noteq> None \<and> v = None \<and> e = cerr (ctxtab s x) \<and> e \<noteq> None
            | Line122 \<Rightarrow>
                joined th \<noteq> None \<and>
                (\<forall>c. joined th = Some c \<longrightarrow> ready (calls s c)
                   \<and> v = result (calls s c) \<and> e = err (calls s c)))))"


definition writer_inv :: "state \<Rightarrow> bool" where
  "writer_inv s =
     ((\<forall>c. \<forall>w\<in>set (writers (progressState (calls s c))). raw w) \<and>
      (\<forall>w. \<not> raw w \<longrightarrow> wlog s w = []))"

definition retry_inv :: "state \<Rightarrow> tid \<Rightarrow> bool" where
  "retry_inv s t =
     (\<forall>site v e. pc (threads s t) = Returned site v e \<and> second (threads s t)
        \<longrightarrow> e \<noteq> Some ErrRetry)"

subsection \<open>The deadline as the specification words it\<close>

text \<open>The deadlines of the registered contexts that are still active, in join order.\<close>

definition active_deadlines :: "(ctxid \<Rightarrow> caller_ctx) \<Rightarrow> call \<Rightarrow> time list" where
  "active_deadlines cx c =
     List.map_filter (\<lambda>i. if cerr (cx i) = None then cdeadline (cx i) else None) (ctxs c)"

text \<open>"The earliest deadline among the currently-active waiters", and no deadline when
  no active waiter has one.\<close>

definition earliest_active_deadline :: "(ctxid \<Rightarrow> caller_ctx) \<Rightarrow> call \<Rightarrow> time option" where
  "earliest_active_deadline cx c =
     (case active_deadlines cx c of [] \<Rightarrow> None | d # ds \<Rightarrow> Some (fold min ds d))"

subsection \<open>Concrete runs\<close>

text \<open>Contexts that are all active, without deadline or writer; invocation \<open>t\<close> of
  \<^verbatim>\<open>Do\<close> uses the key \<^verbatim>\<open>"k"\<close> and the context \<open>t\<close>.\<close>

definition cx0 :: "ctxid \<Rightarrow> caller_ctx" where
  "cx0 = (\<lambda>x. \<lparr>cerr = None, cdeadline = None, cwriter = None\<rparr>)"

definition args0 :: "tid \<Rightarrow> key \<times> ctxid" where
  "args0 = (\<lambda>t. (''k'', t))"

definition run0 :: "label list \<Rightarrow> state option" where
  "run0 ls = exec ls (init cx0 args0)"

text \<open>What is observed of a state.\<close>

definition pc_of :: "tid \<Rightarrow> state \<Rightarrow> pc" where
  "pc_of t s = pc (threads s t)"

definition merged :: "cid \<Rightarrow> state \<Rightarrow> bool \<times> error option" where
  "merged c s = (sc_done (ctx (calls s c)), sc_err (ctx (calls s c)))"

definition stored :: "cid \<Rightarrow> state \<Rightarrow> bool \<times> val \<times> error option" where
  "stored c s = (ready (calls s c), result (calls s c), err (calls s c))"

definition registered :: "cid \<Rightarrow> state \<Rightarrow> ctxid list" where
  "registered c s = ctxs (calls s c)"

definition ctx_errs :: "ctxid list \<Rightarrow> state \<Rightarrow> error option list" where
  "ctx_errs xs s = map (\<lambda>x. cerr (ctxtab s x)) xs"

definition guard :: "cid \<Rightarrow> state \<Rightarrow> nat \<times> nat \<times> nat" where
  "guard c s = (runs (tasks s c), triggers (tasks s c), pending (tasks s c))"

text \<open>Caller \<open>t\<close> enters \<^verbatim>\<open>Do\<close> and registers with the call it finds or creates.\<close>

definition join :: "tid \<Rightarrow> label list" where
  "join t = [DoLookup t, WaitCheck t, WaitAppend t]"

text \<open>Two callers join, and both goroutines of line 108 have gone through the guard.\<close>

definition sched_two_joined :: "label list" where
  "sched_two_joined = join 0 @ join 1 @ [OnceDo 0, OnceDo 0]"



text \<open>A sole caller whose context completes while the work function runs; the work
  function then returns its own error.\<close>

definition sched_sole_cancelled :: "label list" where
  "sched_sole_cancelled =
     join 0 @ [OnceDo 0, Complete 0 Canceled, SelectCtx 0, CallDone 0, InnerSelect 0]"

definition sched_sole_finished :: "label list" where
  "sched_sole_finished =
     sched_sole_cancelled @ [FnReturn 0 None (Some (UserError 1)), CloseReady 0, RecvReady 0]"

text \<open>The sole caller's context completes and its watcher fires the merged context;
  the work function has not returned yet.\<close>

definition sched_sole_left :: "label list" where
  "sched_sole_left = join 0 @ [OnceDo 0, Complete 0 Canceled, WatchSignal 0 0]"

text \<open>Callers 1 and 2 then join the same call, and the context of caller 2 completes
  while caller 1 is still active.\<close>

definition sched_join_after_merge :: "label list" where
  "sched_join_after_merge =
     sched_sole_left @ join 1 @ join 2 @
     [Complete 2 Canceled, SelectCtx 2, CallDone 2, InnerSelect 2]"

text \<open>Caller 0 creates the call and is delayed before \<^verbatim>\<open>c.wait\<close>; caller 1 joins, the
  work function returns and \<^verbatim>\<open>ready\<close> is closed; then caller 0 enters \<^verbatim>\<open>wait\<close>.\<close>

definition sched_creator_late :: "label list" where
  "sched_creator_late =
     [DoLookup 0] @ join 1 @ [OnceDo 0, FnReturn 0 (Some 7) None, CloseReady 0, WaitCheck 0]"




text \<open>Two active contexts with deadlines 10 and 5, registered in this order.\<close>

definition cx_deadlines :: "ctxid \<Rightarrow> caller_ctx" where
  "cx_deadlines =
     (\<lambda>x. \<lparr>cerr = None, cdeadline = (if x = 0 then Some 10 else Some 5), cwriter = None\<rparr>)"

definition call_two :: call where
  "call_two = newCall\<lparr>ctxs := [0, 1]\<rparr>"

text \<open>A multiplexer that has seen one item and the end of the stream, and a raw
  writer that has received nothing.\<close>

definition item_a :: progress where
  "item_a = \<lparr>ID = ''a'', Timestamp = 1, payload = 0\<rparr>"








text \<open>A context that carries a writer which is not a raw writer.\<close>

definition cx_plain_writer :: "ctxid \<Rightarrow> caller_ctx" where
  "cx_plain_writer = (\<lambda>x. \<lparr>cerr = None, cdeadline = None, cwriter = Some (PWriter 0 False)\<rparr>)"

text \<open>A caller joins, the work function emits one progress item and returns, the
  progress stream ends, and the caller returns.\<close>

definition sched_plain_writer :: "label list" where
  "sched_plain_writer = join 0 @ [OnceDo 0, ReadBatch 0 [item_a], FnReturn 0 (Some 7) None,
     CloseReady 0, CloseProgressWriter 0, ReadEOF 0, CloseWriters 0, SelectReady 0]"

section \<open>Properties\<close>

subsection \<open>Executions and reachable states\<close>

lemmas step_defs = Do_lookup_def wait_check_def wait_append_def append_def Do_return_def set_pc_def upd_call_def upd_tasks_def
  wait_call_done_def wait_inner_select_def Done_def

lemmas init_defs = init_def newCall_def newTasks_def noTasks_def newContext_def newProgressState_def

lemma exec_invariant:
  assumes "\<And>l s s'. I s \<Longrightarrow> step l s = Some s' \<Longrightarrow> I s'"
  shows "I s0 \<Longrightarrow> exec ls s0 = Some s \<Longrightarrow> I s"
proof (induction ls arbitrary: s0)
  case Nil
  then show ?case by simp
next
  case (Cons l ls)
  then obtain s1 where "step l s0 = Some s1" "exec ls s1 = Some s"
    by (auto split: option.splits)
  with Cons assms show ?case by blast
qed

lemma exec_snoc: "exec (ls @ [l]) s0 = (case exec ls s0 of None \<Rightarrow> None | Some s \<Rightarrow> step l s)"
  by (induction ls arbitrary: s0) (auto split: option.splits)

lemma reachable_init: "reachable (init cx args)"
  unfolding reachable_def by (rule exI[of _ cx], rule exI[of _ args], rule exI[of _ "[]"]) simp

lemma reachable_step: "reachable s \<Longrightarrow> step l s = Some s' \<Longrightarrow> reachable s'"
  unfolding reachable_def
  apply (elim exE)
  subgoal for cx args ls
    by (rule exI[of _ cx], rule exI[of _ args], rule exI[of _ "ls @ [l]"]) (simp add: exec_snoc)
  done

lemma reachable_exec: "reachable s \<Longrightarrow> exec ls s = Some s' \<Longrightarrow> reachable s'"
  using exec_invariant[of reachable] reachable_step by blast

lemma reachable_induct:
  assumes "reachable s"
    and "\<And>cx args. I (init cx args)"
    and "\<And>l s s'. reachable s \<Longrightarrow> I s \<Longrightarrow> step l s = Some s' \<Longrightarrow> I s'"
  shows "I s"
proof -
  from assms(1) obtain cx args ls where e: "exec ls (init cx args) = Some s"
    unfolding reachable_def by blast
  have "reachable s \<and> I s"
    by (rule exec_invariant[where I = "\<lambda>s. reachable s \<and> I s", OF _ _ e])
       (auto intro: reachable_step assms(2,3) reachable_init)
  then show ?thesis ..
qed


lemma step_elims [consumes 1, case_names DoLookup WaitCheck WaitAppend SelectCtx SelectReady CallDone
    InnerSelect RecvReady OnceFirst OnceLater FnReturn CloseReady CloseProgressWriter Cleanup
    WatchSignal WatchExit FnCallsDone Complete ReadBatch ReadEOF CloseWriters ReadError]:
  assumes "step l s = Some s'"
  obtains
    t where "l = DoLookup t" "pc (threads s t) = DoEntry" "s' = Do_lookup t s"
  | t c where "l = WaitCheck t" "pc (threads s t) = WaitEntry c" "s' = wait_check t c s"
  | t c where "l = WaitAppend t" "pc (threads s t) = Appending c" "s' = wait_append t c s"
  | t c where "l = SelectCtx t" "pc (threads s t) = Selecting c"
      "cerr (ctxtab s (tctx (threads s t))) \<noteq> None" "s' = set_pc t (CallingDone c) s"
  | t c where "l = SelectReady t" "pc (threads s t) = Selecting c" "ready (calls s c)"
      "s' = Do_return t Line122 (result (calls s c)) (err (calls s c)) s"
  | t c where "l = CallDone t" "pc (threads s t) = CallingDone c" "s' = wait_call_done t c s"
  | t c where "l = InnerSelect t" "pc (threads s t) = InnerSelecting c" "s' = wait_inner_select t c s"
  | t c where "l = RecvReady t" "pc (threads s t) = ReceivingReady c" "ready (calls s c)"
      "s' = Do_return t Line117 (result (calls s c)) (err (calls s c)) s"
  | c where "l = OnceDo c" "0 < pending (tasks s c)" "\<not> once (calls s c)"
      "s' = upd_tasks c (\<lambda>k. k\<lparr>pending := pending k - 1, triggers := Suc (triggers k),
                                 runs := Suc (runs k), run_pc := InFn\<rparr>)
               (upd_call c (\<lambda>cl. cl\<lparr>once := True\<rparr>) s)"
  | c where "l = OnceDo c" "0 < pending (tasks s c)" "once (calls s c)"
      "s' = upd_tasks c (\<lambda>k. k\<lparr>pending := pending k - 1, triggers := Suc (triggers k)\<rparr>) s"
  | c v e where "l = FnReturn c v e" "run_pc (tasks s c) = InFn" "e \<noteq> Some ErrRetry"
      "s' = upd_tasks c (\<lambda>k. k\<lparr>run_pc := Stored, fn_ret := Some (v, e)\<rparr>)
               (upd_call c (\<lambda>cl. cl\<lparr>result := v, err := e\<rparr>) s)"
  | c where "l = CloseReady c" "run_pc (tasks s c) = Stored"
      "s' = upd_tasks c (\<lambda>k. k\<lparr>run_pc := Signalled\<rparr>) (upd_call c (\<lambda>cl. cl\<lparr>ready := True\<rparr>) s)"
  | c where "l = CloseProgressWriter c" "run_pc (tasks s c) = Signalled"
      "s' = upd_tasks c (\<lambda>k. k\<lparr>run_pc := Exited, pipe_closed := True\<rparr>) s"
  | c where "l = Cleanup c" "cleanup (tasks s c)" "ready (calls s c)"
      "s' = (upd_tasks c (\<lambda>k. k\<lparr>cleanup := False\<rparr>) s)\<lparr>gm := (gm s)(ckey (tasks s c) := None)\<rparr>"
  | c x where "l = WatchSignal c x" "x \<in> set (watchers (tasks s c))" "cerr (ctxtab s x) \<noteq> None"
      "s' = upd_tasks c (\<lambda>k. k\<lparr>watchers := remove1 x (watchers k)\<rparr>)
               (upd_call c (signal (ctxtab s)) s)"
  | c x where "l = WatchExit c x" "x \<in> set (watchers (tasks s c))" "sc_done (ctx (calls s c))"
      "s' = upd_tasks c (\<lambda>k. k\<lparr>watchers := remove1 x (watchers k)\<rparr>) s"
  | c where "l = FnCallsDone c" "run_pc (tasks s c) \<noteq> NotStarted" "s' = upd_call c (Done (ctxtab s)) s"
  | x e where "l = Complete x e" "cerr (ctxtab s x) = None"
      "s' = s\<lparr>ctxtab := (ctxtab s)(x := (ctxtab s x)\<lparr>cerr := Some e\<rparr>)\<rparr>"
  | c b where "l = ReadBatch c b" "reader (tasks s c) = Reading"
      "s' = (upd_call c (\<lambda>cl. cl\<lparr>progressState := fst (run_batch b (progressState (calls s c), wlog s))\<rparr>) s)
              \<lparr>wlog := snd (run_batch b (progressState (calls s c), wlog s))\<rparr>"
  | c where "l = ReadEOF c" "reader (tasks s c) = Reading" "pipe_closed (tasks s c)"
      "s' = upd_tasks c (\<lambda>k. k\<lparr>reader := Closing\<rparr>)
               (upd_call c (\<lambda>cl. cl\<lparr>progressState := run_eof (progressState cl)\<rparr>) s)"
  | c where "l = CloseWriters c" "reader (tasks s c) = Closing"
      "s' = (upd_tasks c (\<lambda>k. k\<lparr>reader := Stopped\<rparr>) s)
               \<lparr>wlog := run_close (progressState (calls s c)) (wlog s)\<rparr>"
  | c where "l = ReadError c" "reader (tasks s c) = Reading"
      "s' = upd_tasks c (\<lambda>k. k\<lparr>reader := Stopped\<rparr>) s"
proof (cases l)
  case (DoLookup t)
  with assms that(1) show ?thesis
    by (auto simp: Let_def split: if_splits pc.splits)
next
  case (WaitCheck t)
  with assms that(2) show ?thesis
    by (auto simp: Let_def split: if_splits pc.splits)
next
  case (WaitAppend t)
  with assms that(3) show ?thesis
    by (auto simp: Let_def split: if_splits pc.splits)
next
  case (SelectCtx t)
  with assms that(4) show ?thesis
    by (auto simp: Let_def split: if_splits pc.splits)
next
  case (SelectReady t)
  with assms that(5) show ?thesis
    by (auto simp: Let_def split: if_splits pc.splits)
next
  case (CallDone t)
  with assms that(6) show ?thesis
    by (auto simp: Let_def split: if_splits pc.splits)
next
  case (InnerSelect t)
  with assms that(7) show ?thesis
    by (auto simp: Let_def split: if_splits pc.splits)
next
  case (RecvReady t)
  with assms that(8) show ?thesis
    by (auto simp: Let_def split: if_splits pc.splits)
next
  case (OnceDo c)
  show ?thesis
  proof (cases "once (calls s c)")
    case True
    with OnceDo assms that(10) show ?thesis by (auto split: if_splits)
  next
    case False
    with OnceDo assms that(9) show ?thesis by (auto split: if_splits)
  qed
next
  case (FnReturn c v e)
  with assms that(11) show ?thesis
    by (auto simp: Let_def split: if_splits pc.splits)
next
  case (CloseReady c)
  with assms that(12) show ?thesis
    by (auto simp: Let_def split: if_splits pc.splits)
next
  case (CloseProgressWriter c)
  with assms that(13) show ?thesis
    by (auto simp: Let_def split: if_splits pc.splits)
next
  case (Cleanup c)
  with assms that(14) show ?thesis
    by (auto simp: Let_def split: if_splits pc.splits)
next
  case (WatchSignal c x)
  with assms that(15) show ?thesis
    by (auto simp: Let_def split: if_splits pc.splits)
next
  case (WatchExit c x)
  with assms that(16) show ?thesis
    by (auto simp: Let_def split: if_splits pc.splits)
next
  case (FnCallsDone c)
  with assms that(17) show ?thesis
    by (auto simp: Let_def split: if_splits pc.splits)
next
  case (Complete x e)
  with assms that(18) show ?thesis
    by (auto simp: Let_def split: if_splits pc.splits)
next
  case (ReadBatch c b)
  with assms that(19) show ?thesis
    by (auto simp: Let_def split: if_splits pc.splits)
next
  case (ReadEOF c)
  with assms that(20) show ?thesis
    by (auto simp: Let_def split: if_splits pc.splits)
next
  case (CloseWriters c)
  with assms that(21) show ?thesis
    by (auto simp: Let_def split: if_splits pc.splits)
next
  case (ReadError c)
  with assms that(22) show ?thesis
    by (auto simp: Let_def split: if_splits pc.splits)
qed

lemma signal_keeps [simp]:
  "once (signal cx c) = once c" "ctxs (signal cx c) = ctxs c" "ready (signal cx c) = ready c"
  "result (signal cx c) = result c" "err (signal cx c) = err c" "progressState (signal cx c) = progressState c"
  by (simp_all add: signal_def split: option.splits)

lemma once_inv_step:
  assumes "step l s = Some s'" "once_inv s c"
  shows "once_inv s' c"
  using assms(1)
  by (cases rule: step_elims)
     (use assms(2) in \<open>auto simp: once_inv_def step_defs init_defs Let_def split: option.splits\<close>)

lemma once_inv_reachable:
  assumes "reachable s" shows "once_inv s c"
  using assms
proof (rule reachable_induct)
  fix cx args show "once_inv (init cx args) c" by (simp add: once_inv_def init_defs)
next
  fix l s s' assume "once_inv s c" "step l s = Some s'"
  then show "once_inv s' c" by (blast intro: once_inv_step)
qed

lemma result_inv_step:
  assumes "step l s = Some s'" "result_inv s c" "once_inv s c"
  shows "result_inv s' c"
  using assms(1)
  by (cases rule: step_elims)
     (use assms(2,3) in \<open>auto simp: result_inv_def once_inv_def step_defs init_defs Let_def split: option.splits\<close>)

lemma result_inv_reachable:
  assumes "reachable s" shows "result_inv s c"
  using assms
proof (rule reachable_induct)
  fix cx args show "result_inv (init cx args) c" by (simp add: result_inv_def init_defs)
next
  fix l s s' assume "reachable s" "result_inv s c" "step l s = Some s'"
  then show "result_inv s' c" by (blast intro: result_inv_step once_inv_reachable)
qed

lemma gm_inv_step:
  assumes "step l s = Some s'" "gm_inv s"
  shows "gm_inv s'"
  using assms(1)
  by (cases rule: step_elims)
     (use assms(2) in \<open>auto simp: gm_inv_def step_defs Let_def less_Suc_eq split: option.splits\<close>)

lemma gm_inv_reachable:
  assumes "reachable s" shows "gm_inv s"
  using assms
proof (rule reachable_induct)
  fix cx args show "gm_inv (init cx args)" by (simp add: gm_inv_def init_defs)
next
  fix l s s' assume "gm_inv s" "step l s = Some s'"
  then show "gm_inv s'" by (blast intro: gm_inv_step)
qed

lemma sc_done_signal: "sc_done (ctx c) \<Longrightarrow> sc_done (ctx (signal cx c))"
  by (simp add: signal_def)

lemma thread_inv_step:
  assumes "step l s = Some s'" "thread_inv s t" "\<And>c. result_inv s c" "gm_inv s"
  shows "thread_inv s' t"
  using assms(1)
proof (cases rule: step_elims)
  case (FnReturn c v e)
  from assms(3)[of c] FnReturn(2) have nr: "\<not> ready (calls s c)"
    by (simp add: result_inv_def)
  from assms(2) nr show ?thesis unfolding FnReturn(4)
    by (auto simp: thread_inv_def step_defs Let_def split: pc.splits retsite.splits)
qed (use assms(2,4) in \<open>auto simp: thread_inv_def gm_inv_def step_defs init_defs Let_def sc_done_signal
        split: option.splits pc.splits retsite.splits\<close>)

lemma thread_inv_reachable:
  assumes "reachable s" shows "thread_inv s t"
  using assms
proof (rule reachable_induct)
  fix cx args show "thread_inv (init cx args) t" by (simp add: thread_inv_def init_defs)
next
  fix l s s' assume "reachable s" "thread_inv s t" "step l s = Some s'"
  then show "thread_inv s' t"
    by (blast intro: thread_inv_step result_inv_reachable gm_inv_reachable)
qed

lemma signal_loop_None_iff:
  "signal_loop cx xs e = None \<longleftrightarrow> (\<exists>i\<in>set xs. cerr (cx i) = None)"
  by (induction xs arbitrary: e) (auto split: option.splits)


lemma sc_done_signal_iff:
  "sc_done (ctx (signal cx c)) \<longleftrightarrow>
     sc_done (ctx c) \<or> (\<forall>i\<in>set (ctxs c). cerr (cx i) \<noteq> None)"
proof (cases "signal_loop cx (ctxs c) None")
  case None
  then show ?thesis using signal_loop_None_iff[of cx "ctxs c" None]
    by (auto simp: signal_def)
next
  case (Some e)
  then have "\<not> (\<exists>i\<in>set (ctxs c). cerr (cx i) = None)"
    using signal_loop_None_iff[of cx "ctxs c" None] by simp
  with Some show ?thesis by (auto simp: signal_def)
qed


lemma set_remove1_subset': "set xs \<subseteq> A \<Longrightarrow> set (remove1 x xs) \<subseteq> A"
  using set_remove1_subset by fastforce



lemma fold_write_other:
  "w \<notin> set ws \<Longrightarrow> fold (\<lambda>w'. write_to w' ev) ws L w = L w"
  by (induction ws arbitrary: L) (auto simp: write_to_def)

lemma fold_write_one:
  "fold (\<lambda>p. write_to pw (f p)) ps L = L(pw := L pw @ map f ps)"
  by (induction ps arbitrary: L) (auto simp: write_to_def)

lemma add_not_raw: "\<not> raw pw \<Longrightarrow> add pw (ps, L) = (ps, L)"
  by (simp add: add_def)

lemma add_raw:
  "raw pw \<Longrightarrow> add pw (ps, L) =
     (if ps_done ps
      then (ps, L(pw := L pw @ map WriteRawProgress (sort_key Timestamp (map snd (items ps))) @ [Close]))
      else (ps\<lparr>writers := writers ps @ [pw]\<rparr>,
            L(pw := L pw @ map WriteRawProgress (sort_key Timestamp (map snd (items ps))))))"
  by (simp add: add_def Let_def fold_write_one write_to_def)

lemma add_writers_raw:
  "\<forall>w\<in>set (writers ps). raw w \<Longrightarrow> \<forall>w\<in>set (writers (fst (add pw (ps, L)))). raw w"
  by (cases "raw pw") (auto simp: add_raw add_not_raw)

lemma add_log_not_raw: "\<not> raw w \<Longrightarrow> snd (add pw (ps, L)) w = L w"
  by (cases "raw pw") (auto simp: add_raw add_not_raw)

lemma run_batch_writers: "writers (fst (run_batch b (ps, L))) = writers ps"
  by (induction b arbitrary: ps L) auto

lemma run_batch_log_other:
  "w \<notin> set (writers ps) \<Longrightarrow> snd (run_batch b (ps, L)) w = L w"
  by (induction b arbitrary: ps L) (auto simp: fold_write_other)

lemma run_close_other: "w \<notin> set (writers ps) \<Longrightarrow> run_close ps L w = L w"
  by (simp add: run_close_def fold_write_other)

lemma run_batch_log_not_raw:
  "\<forall>w'\<in>set (writers ps). raw w' \<Longrightarrow> \<not> raw w \<Longrightarrow> snd (run_batch b (ps, L)) w = L w"
  by (rule run_batch_log_other) blast

lemma run_close_not_raw:
  "\<forall>w'\<in>set (writers ps). raw w' \<Longrightarrow> \<not> raw w \<Longrightarrow> run_close ps L w = L w"
  by (rule run_close_other) blast

lemma writer_inv_step:
  assumes "step l s = Some s'" "writer_inv s"
  shows "writer_inv s'"
  using assms(1)
proof (cases rule: step_elims)
  case (WaitAppend t c)
  from assms(2) show ?thesis unfolding WaitAppend(3)
    by (auto simp: writer_inv_def step_defs Let_def add_log_not_raw split: option.splits
             dest: add_writers_raw[rule_format, rotated])
next
  case (ReadBatch c b)
  from assms(2) show ?thesis unfolding ReadBatch(3)
    by (auto simp: writer_inv_def step_defs run_batch_writers run_batch_log_not_raw)
next
  case (CloseWriters c)
  from assms(2) show ?thesis unfolding CloseWriters(3)
    by (auto simp: writer_inv_def step_defs run_close_not_raw)
qed (use assms(2) in \<open>auto simp: writer_inv_def step_defs init_defs run_eof_def Let_def
        split: option.splits\<close>)

lemma writer_inv_reachable:
  assumes "reachable s" shows "writer_inv s"
  using assms
proof (rule reachable_induct)
  fix cx args show "writer_inv (init cx args)" by (simp add: writer_inv_def init_defs)
next
  fix l s s' assume "writer_inv s" "step l s = Some s'"
  then show "writer_inv s'" by (blast intro: writer_inv_step)
qed


lemmas run_defs = run0_def cx0_def args0_def join_def init_defs step_defs signal_def
  pc_of_def merged_def stored_def registered_def ctx_errs_def



subsection \<open>Single execution\<close>

text \<open>
  Claim C1.  In every reachable state and for every call: the work function has been
  invoked at most once; it has been invoked exactly once as soon as one of the
  goroutines of line 108 has gone through \<^verbatim>\<open>once.Do\<close>; every registered caller
  has started exactly one such goroutine (those that went through the guard plus
  those still pending are as many as the registered contexts); a goroutine that
  finds the guard taken changes neither the counter of invocations, nor where the
  running execution stands, nor the call; and as soon as one caller is registered,
  either the work function has been invoked or a goroutine of line 108 is pending and
  its step invokes it.
\<close>

theorem single_execution:
  assumes "reachable s"
  shows "runs (tasks s c) \<le> 1
       \<and> (runs (tasks s c) = 1) = (0 < triggers (tasks s c))
       \<and> triggers (tasks s c) + pending (tasks s c) = length (ctxs (calls s c))
       \<and> (\<forall>s'. once (calls s c) \<and> step (OnceDo c) s = Some s' \<longrightarrow>
             runs (tasks s' c) = runs (tasks s c) \<and> run_pc (tasks s' c) = run_pc (tasks s c)
             \<and> calls s' = calls s)
       \<and> (ctxs (calls s c) \<noteq> [] \<longrightarrow>
             runs (tasks s c) = 1 \<or>
             (\<exists>s'. step (OnceDo c) s = Some s' \<and> runs (tasks s' c) = 1))"
proof -
  note oi = once_inv_reachable[OF assms, of c]
  from oi
  have a: "runs (tasks s c) \<le> 1" "(runs (tasks s c) = 1) = (0 < triggers (tasks s c))"
    "triggers (tasks s c) + pending (tasks s c) = length (ctxs (calls s c))"
    by (auto simp: once_inv_def split: if_splits)
  have b: "\<forall>s'. once (calls s c) \<and> step (OnceDo c) s = Some s' \<longrightarrow>
             runs (tasks s' c) = runs (tasks s c) \<and> run_pc (tasks s' c) = run_pc (tasks s c)
             \<and> calls s' = calls s"
    by (auto simp: upd_tasks_def split: if_splits)
  have c: "runs (tasks s c) = 1 \<or> (\<exists>s'. step (OnceDo c) s = Some s' \<and> runs (tasks s' c) = 1)"
    if "ctxs (calls s c) \<noteq> []"
  proof (cases "once (calls s c)")
    case True
    with oi show ?thesis by (simp add: once_inv_def)
  next
    case False
    with oi that have "0 < pending (tasks s c)" "runs (tasks s c) = 0"
      by (auto simp: once_inv_def)
    with False show ?thesis by (simp add: upd_tasks_def upd_call_def)
  qed
  from a b c show ?thesis by blast
qed

text \<open>Two callers join one call and both goroutines go through the guard: one
  invocation.\<close>

theorem single_execution_witness:
  "map_option (guard 0) (run0 sched_two_joined) = Some (1, 2, 0)
   \<and> map_option (registered 0) (run0 sched_two_joined) = Some [0, 1]"
proof -
  define s where "s = the (run0 sched_two_joined)"
  have e: "run0 sched_two_joined = Some s"
    unfolding s_def by (simp add: sched_two_joined_def run_defs)
  then have r: "reachable s" unfolding reachable_def run0_def by blast
  have t: "triggers (tasks s 0) = 2" "pending (tasks s 0) = 0" "ctxs (calls s 0) = [0, 1]"
    unfolding s_def by (simp_all add: sched_two_joined_def run_defs)
  from single_execution[OF r, of 0] t have "runs (tasks s 0) = 1" by simp
  with t e show ?thesis by (simp add: guard_def registered_def)
qed

subsection \<open>Fan-out of the result\<close>




subsection \<open>The last waiter\<close>

text \<open>Once completed, the merged context of an allocated call stays completed.\<close>

lemma sc_done_stable:
  assumes "step l s = Some s'" "sc_done (ctx (calls s c))" "c < ncalls s"
  shows "sc_done (ctx (calls s' c))"
  using assms(1)
  by (cases rule: step_elims)
     (use assms(2,3) in \<open>auto simp: step_defs Let_def sc_done_signal split: option.splits\<close>)

text \<open>
  Claim C3.  A caller whose own context has completed took the case of line 111.
  If all registered contexts have completed when it evaluates \<^verbatim>\<open>c.ctx.Done()\<close>
  (line 113), the merged context is completed after that call; a merged context that
  is completed stays completed; if the merged context
  is completed at the inner \<^verbatim>\<open>select\<close>, the caller goes to \<^verbatim>\<open><-c.ready\<close> (line 116);
  while \<^verbatim>\<open>ready\<close> is not closed none of its steps can be taken; once it is closed the
  caller returns the stored pair; and whenever a caller has returned at line 117, the
  call has finished and the pair it returned is the pair the work function returned.
\<close>

theorem last_waiter_waits_for_result:
  assumes "reachable s"
  shows "(pc (threads s t) = CallingDone c
            \<and> (\<forall>i\<in>set (ctxs (calls s c)). cerr (ctxtab s i) \<noteq> None) \<longrightarrow>
            (\<exists>s'. step (CallDone t) s = Some s' \<and> pc (threads s' t) = InnerSelecting c
                  \<and> sc_done (ctx (calls s' c))))
       \<and> (\<forall>l s'. joined (threads s t) = Some c \<and> sc_done (ctx (calls s c))
             \<and> step l s = Some s' \<longrightarrow> sc_done (ctx (calls s' c)))
       \<and> (pc (threads s t) = InnerSelecting c \<and> sc_done (ctx (calls s c)) \<longrightarrow>
            map_option (pc_of t) (step (InnerSelect t) s) = Some (ReceivingReady c))
       \<and> (pc (threads s t) = ReceivingReady c \<and> \<not> ready (calls s c) \<longrightarrow>
            (\<forall>l. actor l = Some t \<longrightarrow> step l s = None))
       \<and> (pc (threads s t) = ReceivingReady c \<and> ready (calls s c) \<longrightarrow>
            map_option (pc_of t) (step (RecvReady t) s)
              = Some (Returned Line117 (result (calls s c)) (err (calls s c))))
       \<and> (\<forall>v e. pc (threads s t) = Returned Line117 v e \<longrightarrow>
            cerr (ctxtab s (tctx (threads s t))) \<noteq> None \<and>
            (\<exists>c'. joined (threads s t) = Some c' \<and> ready (calls s c')
                  \<and> fn_ret (tasks s c') = Some (v, e)))"
proof -
  have z: "\<exists>s'. step (CallDone t) s = Some s' \<and> pc (threads s' t) = InnerSelecting c
                  \<and> sc_done (ctx (calls s' c))"
    if "pc (threads s t) = CallingDone c" "\<forall>i\<in>set (ctxs (calls s c)). cerr (ctxtab s i) \<noteq> None"
    using that
    by (simp add: wait_call_done_def set_pc_def upd_call_def Done_def sc_done_signal_iff)
  have y: "sc_done (ctx (calls s' c))"
    if "joined (threads s t) = Some c" "sc_done (ctx (calls s c))" "step l s = Some s'" for l s'
  proof -
    from thread_inv_reachable[OF assms, of t] that(1) have "c < ncalls s"
      by (simp add: thread_inv_def Let_def)
    with that(2,3) show ?thesis by (blast intro: sc_done_stable)
  qed
  have a: "map_option (pc_of t) (step (InnerSelect t) s) = Some (ReceivingReady c)"
    if "pc (threads s t) = InnerSelecting c" "sc_done (ctx (calls s c))"
    using that by (simp add: wait_inner_select_def set_pc_def pc_of_def)
  have b: "step l s = None"
    if "pc (threads s t) = ReceivingReady c" "\<not> ready (calls s c)" "actor l = Some t" for l
    using that by (cases l) auto
  have c: "map_option (pc_of t) (step (RecvReady t) s)
              = Some (Returned Line117 (result (calls s c)) (err (calls s c)))"
    if "pc (threads s t) = ReceivingReady c" "ready (calls s c)"
    using that result_inv_reachable[OF assms, of c]
    by (simp add: result_inv_def Do_return_def set_pc_def pc_of_def)
  have d: "cerr (ctxtab s (tctx (threads s t))) \<noteq> None \<and>
            (\<exists>c'. joined (threads s t) = Some c' \<and> ready (calls s c')
                  \<and> fn_ret (tasks s c') = Some (v, e))"
    if p: "pc (threads s t) = Returned Line117 v e" for v e
  proof -
    from thread_inv_reachable[OF assms, of t] p
    obtain c' where j: "joined (threads s t) = Some c'" "ready (calls s c')"
      "v = result (calls s c')" "e = err (calls s c')"
      and x: "cerr (ctxtab s (tctx (threads s t))) \<noteq> None"
      by (auto simp: thread_inv_def Let_def)
    from result_inv_reachable[OF assms, of c'] j
    have "fn_ret (tasks s c') = Some (v, e)" by (auto simp: result_inv_def)
    with j x show ?thesis by blast
  qed
  from z y a b c d show ?thesis by blast
qed

text \<open>A sole caller is cancelled while the work function runs: it blocks at line 116,
  and returns the error of the work function once that has returned.\<close>

theorem last_waiter_waits_for_result_witness:
  "map_option (pc_of 0) (run0 sched_sole_cancelled) = Some (ReceivingReady 0)
   \<and> run0 (sched_sole_cancelled @ [RecvReady 0]) = None
   \<and> map_option (pc_of 0) (run0 sched_sole_finished)
       = Some (Returned Line117 None (Some (UserError 1)))"
proof -
  define s where "s = the (run0 sched_sole_cancelled)"
  have e: "run0 sched_sole_cancelled = Some s"
    unfolding s_def by (simp add: sched_sole_cancelled_def run_defs)
  then have r: "reachable s" unfolding reachable_def run0_def by blast
  have p: "pc (threads s 0) = ReceivingReady 0" "\<not> ready (calls s 0)"
    unfolding s_def by (simp_all add: sched_sole_cancelled_def run_defs)
  from last_waiter_waits_for_result[OF r, of 0 0] p
  have "step (RecvReady 0) s = None" by simp
  with e have blocked: "run0 (sched_sole_cancelled @ [RecvReady 0]) = None"
    by (simp add: run0_def exec_snoc)
  have fin: "map_option (pc_of 0) (run0 sched_sole_finished)
       = Some (Returned Line117 None (Some (UserError 1)))"
    by (simp add: sched_sole_finished_def sched_sole_cancelled_def run_defs)
  from e p blocked fin show ?thesis by (simp add: pc_of_def)
qed

subsection \<open>A waiter that leaves while others remain\<close>

text \<open>When the merged context is not completed at the inner \<^verbatim>\<open>select\<close>, the caller
  returns its own completion error (line 119), and evaluating \<^verbatim>\<open>c.ctx.Done()\<close> does
  not complete the merged context while a registered context is active.\<close>

lemma departing_waiter_own_error:
  assumes "pc (threads s t) = InnerSelecting c" "\<not> sc_done (ctx (calls s c))"
    and "\<not> (second (threads s t) \<and> cerr (ctxtab s (tctx (threads s t))) = Some ErrRetry)"
  shows "map_option (pc_of t) (step (InnerSelect t) s)
           = Some (Returned Line119 None (cerr (ctxtab s (tctx (threads s t)))))"
  using assms by (auto simp: wait_inner_select_def Do_return_def set_pc_def pc_of_def)

lemma departure_keeps_merged_context:
  assumes "pc (threads s t) = CallingDone c" "\<not> sc_done (ctx (calls s c))"
    and "i \<in> set (ctxs (calls s c))" "cerr (ctxtab s i) = None"
  shows "\<exists>s'. step (CallDone t) s = Some s' \<and> \<not> sc_done (ctx (calls s' c))"
  using assms
  by (auto simp: wait_call_done_def set_pc_def upd_call_def Done_def sc_done_signal_iff)

text \<open>
  Claim C4 fails on the code.  \<^verbatim>\<open>wait\<close> refuses a caller only when \<^verbatim>\<open>ready\<close> is
  closed (lines 99-104), so callers can join a call whose merged context has already
  been completed, although the comment of lines 114-115 says that no more callers are
  accepted then.  In the run below the sole caller 0 leaves and the merged context of
  call 0 is completed while the work function still runs; callers 1 and 2 join; the
  context of caller 2 completes while caller 1 is registered and active.  Caller 2
  finds the merged context completed and blocks at line 116: it cannot return before
  the work function has returned, and then returns the result of the work function
  instead of its own completion error.
\<close>

theorem join_after_merged_done_blocks:
  "map_option (merged 0) (run0 sched_sole_left) = Some (True, Some Canceled)
   \<and> map_option (stored 0) (run0 sched_sole_left) = Some (False, None, None)
   \<and> map_option (registered 0) (run0 sched_join_after_merge) = Some [0, 1, 2]
   \<and> map_option (ctx_errs [0, 1, 2]) (run0 sched_join_after_merge)
       = Some [Some Canceled, None, Some Canceled]
   \<and> map_option (stored 0) (run0 sched_join_after_merge) = Some (False, None, None)
   \<and> map_option (pc_of 2) (run0 sched_join_after_merge) = Some (ReceivingReady 0)
   \<and> run0 (sched_join_after_merge @ [RecvReady 2]) = None
   \<and> map_option (pc_of 2)
        (run0 (sched_join_after_merge @ [FnReturn 0 (Some 7) None, CloseReady 0, RecvReady 2]))
       = Some (Returned Line117 (Some 7) None)"
  by (simp add: sched_sole_left_def sched_join_after_merge_def run_defs)

subsection \<open>When the merged context fires\<close>



subsection \<open>The retry condition\<close>

lemma retry_inv_step:
  assumes "step l s = Some s'" "retry_inv s t"
  shows "retry_inv s' t"
  using assms(1)
  by (cases rule: step_elims)
     (use assms(2) in \<open>auto simp: retry_inv_def step_defs Let_def split: option.splits if_splits\<close>)

text \<open>On the branch of line 31 \<^verbatim>\<open>errRetry\<close> is absorbed.\<close>

lemma join_path_absorbs_retry:
  assumes "reachable s" "pc (threads s t) = Returned site v e" "second (threads s t)"
  shows "e \<noteq> Some ErrRetry"
proof -
  have "retry_inv s t"
    using assms(1)
  proof (rule reachable_induct)
    fix cx args show "retry_inv (init cx args) t" by (simp add: retry_inv_def init_defs)
  next
    fix l s s' assume "retry_inv s t" "step l s = Some s'"
    then show "retry_inv s' t" by (blast intro: retry_inv_step)
  qed
  with assms(2,3) show ?thesis by (auto simp: retry_inv_def)
qed

text \<open>
  Claim C6 fails on the code for the caller that created the call: line 51 returns
  what \<^verbatim>\<open>c.wait\<close> returned without the test of line 34.  In the run below caller 0
  creates call 0 and is delayed between lines 50 and 97; caller 1 joins, the work
  function returns \<open>(7, nil)\<close> and \<^verbatim>\<open>ready\<close> is closed; caller 0 then enters
  \<^verbatim>\<open>wait\<close>, finds \<^verbatim>\<open>ready\<close> closed, and \<^verbatim>\<open>Do\<close> returns \<open>(nil, errRetry)\<close> to it.
\<close>

theorem creator_returns_retry:
  "map_option (stored 0) (run0 sched_creator_late) = Some (True, Some 7, None)
   \<and> map_option (pc_of 0) (run0 sched_creator_late) = Some (Returned Line102 None (Some ErrRetry))"
  by (simp add: sched_creator_late_def run_defs)

subsection \<open>The deadline of the merged context\<close>

lemma Deadline_loop_first:
  "Deadline_loop cx xs =
     (case List.map_filter (\<lambda>i. if cerr (cx i) = None then cdeadline (cx i) else None) xs of
        [] \<Rightarrow> None | d # ds \<Rightarrow> Some d)"
  by (induction xs) (auto simp: map_filter_simps split: option.splits)

lemma Deadline_loop_None:
  "Deadline_loop cx xs = None \<longleftrightarrow> (\<forall>i\<in>set xs. cerr (cx i) = None \<longrightarrow> cdeadline (cx i) = None)"
  by (induction xs) (auto split: option.splits)

lemma fold_min_le: "fold min ds (d::nat) \<le> d"
proof (induction ds arbitrary: d)
  case Nil
  show ?case by simp
next
  case (Cons a ds)
  have "fold min ds (min a d) \<le> min a d" by (rule Cons.IH)
  then show ?case by simp
qed

text \<open>
  The claim C7 as it is stated fails: with two active contexts registered in the order
  of their deadlines 10 and 5, \<^verbatim>\<open>Deadline\<close> returns 10, and the earliest deadline is 5.
\<close>

theorem Deadline_earliest_counterexample:
  "ctx_errs [0, 1] (init cx_deadlines args0) = [None, None]
   \<and> Deadline cx_deadlines call_two = Some 10
   \<and> earliest_active_deadline cx_deadlines call_two = Some 5"
  by (simp add: Deadline_def earliest_active_deadline_def active_deadlines_def cx_deadlines_def
      call_two_def newCall_def map_filter_simps ctx_errs_def init_def)

text \<open>
  Claim C7, amended.  \<^verbatim>\<open>Deadline\<close> returns the deadline of the first registered
  context, in join order, that is active and has a deadline; completed contexts are
  skipped; it reports no deadline exactly when no active registered context has one;
  and the deadline it returns is never before the earliest deadline of the active
  registered contexts.
\<close>

theorem Deadline_first_active:
  "Deadline cx c = (case active_deadlines cx c of [] \<Rightarrow> None | d # ds \<Rightarrow> Some d)
   \<and> (Deadline cx c = None \<longleftrightarrow>
        (\<forall>i\<in>set (ctxs c). cerr (cx i) = None \<longrightarrow> cdeadline (cx i) = None))
   \<and> (\<forall>d. Deadline cx c = Some d \<longrightarrow>
        (\<exists>d'. earliest_active_deadline cx c = Some d' \<and> d' \<le> d))"
proof -
  have a: "Deadline cx c = (case active_deadlines cx c of [] \<Rightarrow> None | d # ds \<Rightarrow> Some d)"
    by (simp add: Deadline_def active_deadlines_def Deadline_loop_first)
  have b: "Deadline cx c = None \<longleftrightarrow>
        (\<forall>i\<in>set (ctxs c). cerr (cx i) = None \<longrightarrow> cdeadline (cx i) = None)"
    by (simp add: Deadline_def Deadline_loop_None)
  have c: "\<exists>d'. earliest_active_deadline cx c = Some d' \<and> d' \<le> d" if "Deadline cx c = Some d" for d
    using that a fold_min_le
    by (cases "active_deadlines cx c") (auto simp: earliest_active_deadline_def)
  from a b c show ?thesis by blast
qed

theorem Deadline_first_active_witness:
  "Deadline cx_deadlines call_two = Some 10 \<and> active_deadlines cx_deadlines call_two = [10, 5]"
proof -
  have l: "active_deadlines cx_deadlines call_two = [10, 5]"
    by (simp add: active_deadlines_def cx_deadlines_def call_two_def newCall_def map_filter_simps)
  with Deadline_first_active[of cx_deadlines call_two] show ?thesis by simp
qed

subsection \<open>A subscriber added after the end of the stream\<close>




subsection \<open>The error of the merged context\<close>




subsection \<open>A writer that is not a raw writer\<close>

text \<open>
  Claim C10.  Let the context \<open>x\<close> carry a writer \<open>w\<close> that does not implement
  \<^verbatim>\<open>rawProgressWriter\<close>.  Then \<^verbatim>\<open>add\<close> does nothing; \<^verbatim>\<open>append\<close> registers the
  context and leaves the multiplexer and all writers as they were; the caller
  proceeds to the \<^verbatim>\<open>select\<close> of line 110 as a registered waiter of the call, where it
  gets the result as every other waiter; and in every reachable state the writer is
  subscribed to no call and has received nothing: no item and no \<^verbatim>\<open>Close\<close>.
\<close>

theorem non_raw_writer_skipped:
  assumes "reachable s" "cwriter (ctxtab s x) = Some w" "\<not> raw w"
  shows "add w (ps, L) = (ps, L)
       \<and> ctxs (calls (append c x s) c) = ctxs (calls s c) @ [x]
       \<and> progressState (calls (append c x s) c) = progressState (calls s c)
       \<and> wlog (append c x s) = wlog s
       \<and> (tctx (threads s t) = x \<longrightarrow>
            pc (threads (wait_append t c s) t) = Selecting c
            \<and> joined (threads (wait_append t c s) t) = Some c
            \<and> wlog (wait_append t c s) = wlog s)
       \<and> wlog s w = []
       \<and> (\<forall>c'. w \<notin> set (writers (progressState (calls s c'))))"
proof -
  have a: "add w (ps, L) = (ps, L)" for ps L using assms(3) by (rule add_not_raw)
  from writer_inv_reachable[OF assms(1)] assms(3)
  have b: "wlog s w = []" "\<forall>c'. w \<notin> set (writers (progressState (calls s c')))"
    by (auto simp: writer_inv_def)
  from a assms(2) b show ?thesis
    by (simp add: append_def wait_append_def upd_tasks_def Let_def)
qed

text \<open>A caller whose context carries such a writer joins a call whose work function
  emits an item: the caller is registered and returns the result, and its writer has
  received nothing when the progress stream has ended.\<close>

theorem non_raw_writer_skipped_witness:
  "map_option (registered 0) (exec (join 0) (init cx_plain_writer args0)) = Some [0]
   \<and> map_option (pc_of 0) (exec sched_plain_writer (init cx_plain_writer args0))
       = Some (Returned Line122 (Some 7) None)
   \<and> (\<exists>s. exec sched_plain_writer (init cx_plain_writer args0) = Some s \<and> wlog s (PWriter 0 False) = [])"
proof -
  define s where "s = the (exec sched_plain_writer (init cx_plain_writer args0))"
  have e: "exec sched_plain_writer (init cx_plain_writer args0) = Some s"
    unfolding s_def
    by (simp add: sched_plain_writer_def cx_plain_writer_def run_defs add_def run_eof_def)
  then have r: "reachable s" unfolding reachable_def by blast
  have w: "cwriter (ctxtab s 0) = Some (PWriter 0 False)"
    unfolding s_def
    by (simp add: sched_plain_writer_def cx_plain_writer_def run_defs add_def run_eof_def)
  from non_raw_writer_skipped[OF r w] have "wlog s (PWriter 0 False) = []" by simp
  moreover have "map_option (registered 0) (exec (join 0) (init cx_plain_writer args0)) = Some [0]"
    "map_option (pc_of 0) (exec sched_plain_writer (init cx_plain_writer args0))
       = Some (Returned Line122 (Some 7) None)"
    by (simp_all add: sched_plain_writer_def cx_plain_writer_def run_defs add_def run_eof_def)
  ultimately show ?thesis using e by simp
qed

end
